theory Spec2Isabelle
  imports Main
begin

section \<open>The intermediates managers of dagster's execution plan\<close>

text \<open>
  A shallow embedding of \<^verbatim>\<open>dagster/core/execution_plan/intermediates_manager.py\<close>:
  the handle type, the in-memory manager (a Python dict) and the manager that keeps one
  pickle file per step output under a root directory.

  Every method is a function from the state before the call to a pair: the outcome
  (\<open>Inl\<close> an exception, \<open>Inr\<close> the returned value) and the state after the call, so that the
  state left behind by a call that raises is part of the model.
\<close>

subsection \<open>Exceptions\<close>

text \<open>
  The exceptions the module can raise, by their Python class:
  \<^item> \<open>CheckError\<close>: a failed \<^verbatim>\<open>check.invariant\<close>. The specification names it by the place
    where it is raised: \<^verbatim>\<open>PreconditionViolation\<close> in \<^verbatim>\<open>get_value\<close> and \<^verbatim>\<open>set_value\<close>,
    \<^verbatim>\<open>InvalidRoot\<close> in the constructor, \<^verbatim>\<open>CorruptStore\<close> in \<^verbatim>\<open>has_value\<close>;
  \<^item> \<open>KeyError\<close>: a dict lookup of a missing key (the specification's \<^verbatim>\<open>KeyNotFound\<close>);
  \<^item> \<open>OSError\<close>: a failed \<^verbatim>\<open>open\<close> or directory creation;
  \<^item> \<open>PickleError\<close>: \<^verbatim>\<open>pickle.dump\<close> or \<^verbatim>\<open>pickle.load\<close> failed.
\<close>

datatype error = CheckError | KeyError | OSError | PickleError

text \<open>
  Modelled from the spec: \<^verbatim>\<open>check.invariant\<close> (the module \<^verbatim>\<open>dagster.check\<close> is not part
  of the sources at hand). The specification describes every call of it as a precondition
  whose violation fails the operation: it raises when the condition is false and does
  nothing otherwise.
\<close>

definition invariant :: "bool \<Rightarrow> error + unit" where
  "invariant condition = (if condition then Inr () else Inl CheckError)"

subsection \<open>StepOutputHandle\<close>

text \<open>
  \<^verbatim>\<open>class StepOutputHandle(namedtuple('_StepOutputHandle', 'step_key output_name'))\<close>:
  an immutable pair of strings with value equality, used as a dict key.
\<close>

record StepOutputHandle =
  step_key :: string
  output_name :: string

text \<open>
  \<^verbatim>\<open>StepOutputHandle.__new__\<close> passes each argument through \<^verbatim>\<open>check.str_param\<close>, which is
  not part of the sources at hand and is therefore a parameter here: it maps an argument
  to the string stored in the tuple, or to the exception it raises. The arguments are
  evaluated in the order \<open>step_key\<close>, \<open>output_name\<close>.
\<close>

definition StepOutputHandle_new ::
  "('a \<Rightarrow> 'e + string) \<Rightarrow> 'a \<Rightarrow> 'a \<Rightarrow> 'e + StepOutputHandle" where
  "StepOutputHandle_new str_param sk out =
     (case str_param sk of
        Inl e \<Rightarrow> Inl e
      | Inr k \<Rightarrow>
          (case str_param out of
             Inl e \<Rightarrow> Inl e
           | Inr n \<Rightarrow> Inr \<lparr>step_key = k, output_name = n\<rparr>))"

subsection \<open>InMemoryIntermediatesManager\<close>

text \<open>
  The state is the dict \<^verbatim>\<open>self.values\<close>, empty after \<^verbatim>\<open>__init__\<close>. The
  \<^verbatim>\<open>check.inst_param\<close> calls test the class of the argument; here the argument has the type
  of handles.
\<close>

type_synonym 'v mem_values = "StepOutputHandle \<rightharpoonup> 'v"

definition InMemoryIntermediatesManager_init :: "'v mem_values" where
  "InMemoryIntermediatesManager_init = Map.empty"

definition mem_get_value :: "StepOutputHandle \<Rightarrow> 'v mem_values \<Rightarrow> (error + 'v) \<times> 'v mem_values" where
  "mem_get_value h vals =
     (case vals h of None \<Rightarrow> (Inl KeyError, vals) | Some v \<Rightarrow> (Inr v, vals))"

definition mem_set_value ::
  "StepOutputHandle \<Rightarrow> 'v \<Rightarrow> 'v mem_values \<Rightarrow> (error + unit) \<times> 'v mem_values" where
  "mem_set_value h v vals = (Inr (), vals(h \<mapsto> v))"

definition mem_has_value :: "StepOutputHandle \<Rightarrow> 'v mem_values \<Rightarrow> (error + bool) \<times> 'v mem_values" where
  "mem_has_value h vals = (Inr (vals h \<noteq> None), vals)"

text \<open>A history of \<^verbatim>\<open>set_value\<close> calls on one manager, oldest first.\<close>

fun mem_writes :: "(StepOutputHandle \<times> 'v) list \<Rightarrow> 'v mem_values \<Rightarrow> 'v mem_values" where
  "mem_writes [] vals = vals"
| "mem_writes ((h, v) # ws) vals = mem_writes ws (snd (mem_set_value h v vals))"

subsection \<open>Paths\<close>

text \<open>
  \<^verbatim>\<open>os.path.join\<close> on a POSIX system (\<^verbatim>\<open>posixpath.join\<close>): a component that starts with
  the separator replaces what was joined so far, otherwise it is appended, after a
  separator unless the path so far is empty or already ends with one.
\<close>

definition sep :: char where
  "sep = CHR ''/''"

definition join_step :: "string \<Rightarrow> string \<Rightarrow> string" where
  "join_step path b =
     (if b \<noteq> [] \<and> hd b = sep then b
      else if path = [] \<or> last path = sep then path @ b
      else path @ [sep] @ b)"

definition os_path_join :: "string \<Rightarrow> string list \<Rightarrow> string" where
  "os_path_join a p = foldl join_step a p"

text \<open>The components of a path: the pieces between separators, empty ones included.\<close>

fun split_sep :: "string \<Rightarrow> string list" where
  "split_sep [] = [[]]"
| "split_sep (c # cs) =
     (if c = sep then [] # split_sep cs
      else (case split_sep cs of [] \<Rightarrow> [[c]] | x # xs \<Rightarrow> (c # x) # xs))"

subsection \<open>The file system\<close>

text \<open>
  The part of the operating system the module talks to: a tree of directories and regular
  files, kept as a map from locations (the names from the root directory down) to nodes,
  and the working directory of the process. There are no symbolic links, no permissions
  and no full disk: an operation fails only for the shape of the tree.
\<close>

type_synonym bytes = string

datatype node = File bytes | Dir

record filesystem =
  nodes :: "string list \<rightharpoonup> node"
  cwd :: "string list"

definition node_at :: "filesystem \<Rightarrow> string list \<Rightarrow> node option" where
  "node_at fs loc = (if loc = [] then Some Dir else nodes fs loc)"

text \<open>
  Path resolution: every component is looked up in a directory; an empty component and
  \<^verbatim>\<open>.\<close> stay, \<^verbatim>\<open>..\<close> goes to the parent (the root is its own parent). \<open>None\<close> when a
  component is looked up in something that is not a directory.
\<close>

fun walk :: "filesystem \<Rightarrow> string list \<Rightarrow> string list \<Rightarrow> string list option" where
  "walk fs cur [] = Some cur"
| "walk fs cur (c # cs) =
     (if node_at fs cur \<noteq> Some Dir then None
      else if c = [] \<or> c = ''.'' then walk fs cur cs
      else if c = ''..'' then walk fs (butlast cur) cs
      else walk fs (cur @ [c]) cs)"

definition start :: "filesystem \<Rightarrow> string \<Rightarrow> string list" where
  "start fs path = (if path \<noteq> [] \<and> hd path = sep then [] else cwd fs)"

definition resolve :: "filesystem \<Rightarrow> string \<Rightarrow> string list option" where
  "resolve fs path = (if path = [] then None else walk fs (start fs path) (split_sep path))"

definition stat :: "filesystem \<Rightarrow> string \<Rightarrow> node option" where
  "stat fs path = (case resolve fs path of None \<Rightarrow> None | Some loc \<Rightarrow> node_at fs loc)"

definition os_path_exists :: "filesystem \<Rightarrow> string \<Rightarrow> bool" where
  "os_path_exists fs path = (stat fs path \<noteq> None)"

definition os_path_isdir :: "filesystem \<Rightarrow> string \<Rightarrow> bool" where
  "os_path_isdir fs path = (stat fs path = Some Dir)"

definition os_path_isfile :: "filesystem \<Rightarrow> string \<Rightarrow> bool" where
  "os_path_isfile fs path = (case stat fs path of Some (File b) \<Rightarrow> True | _ \<Rightarrow> False)"

text \<open>
  \<^verbatim>\<open>open(path, 'wb')\<close>: the location of the file that is created or truncated. It fails
  when the path does not resolve, names a directory, or ends in a separator, \<^verbatim>\<open>.\<close> or
  \<^verbatim>\<open>..\<close>.
\<close>

definition open_wb :: "filesystem \<Rightarrow> string \<Rightarrow> error + string list" where
  "open_wb fs path =
     (case resolve fs path of
        None \<Rightarrow> Inl OSError
      | Some loc \<Rightarrow>
          if last (split_sep path) \<in> {[], ''.'', ''..''} \<or> node_at fs loc = Some Dir
          then Inl OSError
          else Inr loc)"

definition put :: "string list \<Rightarrow> node \<Rightarrow> filesystem \<Rightarrow> filesystem" where
  "put loc n fs = fs\<lparr>nodes := (nodes fs)(loc \<mapsto> n)\<rparr>"

text \<open>
  Modelled from the spec: \<^verbatim>\<open>mkdir_p\<close> (\<^verbatim>\<open>dagster.utils\<close> is not part of the sources at
  hand). The specification: ensure the directory exists, create it if missing,
  including intermediate directories, idempotent. It fails when a component exists and
  is not a directory; the directories made before the failure stay.
\<close>

fun makedirs ::
  "string list \<Rightarrow> string list \<Rightarrow> filesystem \<Rightarrow> (error + unit) \<times> filesystem" where
  "makedirs cur [] fs = (if node_at fs cur = Some Dir then (Inr (), fs) else (Inl OSError, fs))"
| "makedirs cur (c # cs) fs =
     (if node_at fs cur \<noteq> Some Dir then (Inl OSError, fs)
      else if c = [] \<or> c = ''.'' then makedirs cur cs fs
      else if c = ''..'' then makedirs (butlast cur) cs fs
      else (case node_at fs (cur @ [c]) of
              None \<Rightarrow> makedirs (cur @ [c]) cs (put (cur @ [c]) Dir fs)
            | Some Dir \<Rightarrow> makedirs (cur @ [c]) cs fs
            | Some (File b) \<Rightarrow> (Inl OSError, fs)))"

definition mkdir_p :: "string \<Rightarrow> filesystem \<Rightarrow> (error + unit) \<times> filesystem" where
  "mkdir_p newdir fs =
     (if newdir = [] then (Inl OSError, fs)
      else makedirs (start fs newdir) (split_sep newdir) fs)"

subsection \<open>Pickle files\<close>

text \<open>
  The pickle codec is a parameter: \<open>dumps\<close> gives the bytes of a value, or \<open>None\<close> for a
  value that cannot be pickled; \<open>loads\<close> gives the value of some bytes, or \<open>None\<close> when
  they are no pickle. \<^verbatim>\<open>write_pickle_file\<close> opens the file before it pickles, so a value
  that cannot be pickled leaves an empty file behind.
\<close>

definition read_pickle_file ::
  "(bytes \<Rightarrow> 'v option) \<Rightarrow> string \<Rightarrow> filesystem \<Rightarrow> (error + 'v) \<times> filesystem" where
  "read_pickle_file loads path fs =
     (case stat fs path of
        Some (File b) \<Rightarrow>
          (case loads b of None \<Rightarrow> (Inl PickleError, fs) | Some v \<Rightarrow> (Inr v, fs))
      | _ \<Rightarrow> (Inl OSError, fs))"

definition write_pickle_file ::
  "('v \<Rightarrow> bytes option) \<Rightarrow> string \<Rightarrow> 'v \<Rightarrow> filesystem \<Rightarrow> (error + unit) \<times> filesystem" where
  "write_pickle_file dumps path v fs =
     (case open_wb fs path of
        Inl e \<Rightarrow> (Inl e, fs)
      | Inr loc \<Rightarrow>
          (case dumps v of
             None \<Rightarrow> (Inl PickleError, put loc (File []) fs)
           | Some b \<Rightarrow> (Inr (), put loc (File b) fs)))"

subsection \<open>FileSystemIntermediateManager\<close>

record FileSystemIntermediateManager =
  root :: string

definition FileSystemIntermediateManager_init ::
  "string \<Rightarrow> filesystem \<Rightarrow> error + FileSystemIntermediateManager" where
  "FileSystemIntermediateManager_init r fs =
     (case invariant (os_path_isdir fs r) of
        Inl e \<Rightarrow> Inl e
      | Inr _ \<Rightarrow> Inr \<lparr>root = r\<rparr>)"

definition create_path_from_handle ::
  "FileSystemIntermediateManager \<Rightarrow> StepOutputHandle \<Rightarrow> string" where
  "create_path_from_handle m h = os_path_join (root m) [step_key h, output_name h]"

definition fs_has_value ::
  "FileSystemIntermediateManager \<Rightarrow> StepOutputHandle \<Rightarrow> filesystem \<Rightarrow>
     (error + bool) \<times> filesystem" where
  "fs_has_value m h fs =
     (let output_path = create_path_from_handle m h in
      if os_path_exists fs output_path then
        (case invariant (os_path_isfile fs output_path) of
           Inl e \<Rightarrow> (Inl e, fs)
         | Inr _ \<Rightarrow> (Inr True, fs))
      else (Inr False, fs))"

definition fs_get_value ::
  "(bytes \<Rightarrow> 'v option) \<Rightarrow> FileSystemIntermediateManager \<Rightarrow> StepOutputHandle \<Rightarrow>
     filesystem \<Rightarrow> (error + 'v) \<times> filesystem" where
  "fs_get_value loads m h fs =
     (case fs_has_value m h fs of
        (Inl e, fs1) \<Rightarrow> (Inl e, fs1)
      | (Inr present, fs1) \<Rightarrow>
          (case invariant present of
             Inl e \<Rightarrow> (Inl e, fs1)
           | Inr _ \<Rightarrow>
               (let output_path = create_path_from_handle m h in
                case invariant (os_path_isfile fs1 output_path) of
                  Inl e \<Rightarrow> (Inl e, fs1)
                | Inr _ \<Rightarrow> read_pickle_file loads output_path fs1)))"

definition fs_set_value ::
  "('v \<Rightarrow> bytes option) \<Rightarrow> FileSystemIntermediateManager \<Rightarrow> StepOutputHandle \<Rightarrow> 'v \<Rightarrow>
     filesystem \<Rightarrow> (error + unit) \<times> filesystem" where
  "fs_set_value dumps m h v fs =
     (case fs_has_value m h fs of
        (Inl e, fs1) \<Rightarrow> (Inl e, fs1)
      | (Inr present, fs1) \<Rightarrow>
          (case invariant (\<not> present) of
             Inl e \<Rightarrow> (Inl e, fs1)
           | Inr _ \<Rightarrow>
               (case mkdir_p (root m @ [sep] @ step_key h) fs1 of
                  (Inl e, fs2) \<Rightarrow> (Inl e, fs2)
                | (Inr _, fs2) \<Rightarrow>
                    (let output_path = create_path_from_handle m h in
                     case invariant (\<not> os_path_exists fs2 output_path) of
                       Inl e \<Rightarrow> (Inl e, fs2)
                     | Inr _ \<Rightarrow> write_pickle_file dumps output_path v fs2))))"

text \<open>A history of \<^verbatim>\<open>set_value\<close> calls on one manager, oldest first, failed calls included.\<close>

fun fs_writes ::
  "('v \<Rightarrow> bytes option) \<Rightarrow> FileSystemIntermediateManager \<Rightarrow> (StepOutputHandle \<times> 'v) list \<Rightarrow>
     filesystem \<Rightarrow> filesystem" where
  "fs_writes dumps m [] fs = fs"
| "fs_writes dumps m ((h, v) # ws) fs = fs_writes dumps m ws (snd (fs_set_value dumps m h v fs))"

subsection \<open>The run of the specification's scenario\<close>

text \<open>
  The root \<^verbatim>\<open>/tmp/run1\<close>, an empty directory, the manager made for it and the handle
  \<^verbatim>\<open>("stepA", "result")\<close>.
\<close>

definition run1 :: filesystem where
  "run1 = \<lparr>nodes = [[''tmp''] \<mapsto> Dir, [''tmp'', ''run1''] \<mapsto> Dir], cwd = []\<rparr>"

definition run1_manager :: FileSystemIntermediateManager where
  "run1_manager = \<lparr>root = ''/tmp/run1''\<rparr>"

definition stepA_result :: StepOutputHandle where
  "stepA_result = \<lparr>step_key = ''stepA'', output_name = ''result''\<rparr>"

text \<open>The same run after \<^verbatim>\<open>set_value(("stepA", "result"), "42")\<close>, pickled as it is.\<close>

definition run1_written :: filesystem where
  "run1_written = snd (fs_set_value Some run1_manager stepA_result ''42'' run1)"

text \<open>A run whose root holds a directory where the file of the handle should be.\<close>

definition run1_corrupt :: filesystem where
  "run1_corrupt =
     \<lparr>nodes = [[''tmp''] \<mapsto> Dir, [''tmp'', ''run1''] \<mapsto> Dir,
               [''tmp'', ''run1'', ''stepA''] \<mapsto> Dir,
               [''tmp'', ''run1'', ''stepA'', ''result''] \<mapsto> Dir],
      cwd = []\<rparr>"

subsection \<open>Auxiliary notions\<close>

text \<open>
  One file system extends another when every node of the first is a node of the second,
  unchanged, and the working directory is the same: nothing was removed or overwritten.
\<close>

definition extends :: "filesystem \<Rightarrow> filesystem \<Rightarrow> bool" where
  "extends fs fs' = (cwd fs' = cwd fs \<and> nodes fs \<subseteq>\<^sub>m nodes fs')"

text \<open>
  Reading a handle back from a path. \<^verbatim>\<open>os.path.join(root, '')\<close> is the root with its
  separator; the segments under the root are the components of what follows it, and two
  segments are the two fields of a handle.
\<close>

definition slash_free :: "string \<Rightarrow> bool" where
  "slash_free s = (sep \<notin> set s)"

definition segments_under_root :: "FileSystemIntermediateManager \<Rightarrow> string \<Rightarrow> string list" where
  "segments_under_root m path = split_sep (drop (length (join_step (root m) [])) path)"

definition handle_of_segments :: "string list \<Rightarrow> StepOutputHandle option" where
  "handle_of_segments segs =
     (case segs of [k, n] \<Rightarrow> Some \<lparr>step_key = k, output_name = n\<rparr> | _ \<Rightarrow> None)"

text \<open>A path component is relative when it does not begin with the separator.\<close>

definition relative :: "string \<Rightarrow> bool" where
  "relative s = (\<not> (s \<noteq> [] \<and> hd s = sep))"

text \<open>
  A simple name is a single, proper path component: not empty, without separator, and
  neither \<^verbatim>\<open>.\<close> nor \<^verbatim>\<open>..\<close>. A handle is simple when both its fields are.
\<close>

definition simple_name :: "string \<Rightarrow> bool" where
  "simple_name s = (s \<noteq> [] \<and> sep \<notin> set s \<and> s \<noteq> ''.'' \<and> s \<noteq> ''..'')"

definition simple_handle :: "StepOutputHandle \<Rightarrow> bool" where
  "simple_handle h = (simple_name (step_key h) \<and> simple_name (output_name h))"

text \<open>The map of a file system is a tree when every node sits in a directory.\<close>

definition tree_shaped :: "filesystem \<Rightarrow> bool" where
  "tree_shaped fs = (\<forall>loc. nodes fs loc \<noteq> None \<longrightarrow> node_at fs (butlast loc) = Some Dir)"

text \<open>A second output of the same step, and the run after both outputs were written.\<close>

definition stepA_other :: StepOutputHandle where
  "stepA_other = \<lparr>step_key = ''stepA'', output_name = ''other''\<rparr>"

definition run1_both :: filesystem where
  "run1_both = snd (fs_set_value Some run1_manager stepA_other ''7'' run1_written)"

section \<open>Properties\<close>

lemmas fs_defs = fs_has_value_def fs_get_value_def fs_set_value_def create_path_from_handle_def
  os_path_join_def join_step_def sep_def os_path_exists_def os_path_isfile_def os_path_isdir_def
  stat_def resolve_def start_def node_at_def invariant_def mkdir_p_def write_pickle_file_def
  read_pickle_file_def open_wb_def put_def FileSystemIntermediateManager_init_def

lemmas run1_defs = run1_def run1_manager_def stepA_result_def run1_written_def run1_corrupt_def

lemma run1_written_eq:
  "run1_written =
     \<lparr>nodes = [[''tmp''] \<mapsto> Dir, [''tmp'', ''run1''] \<mapsto> Dir,
               [''tmp'', ''run1'', ''stepA''] \<mapsto> Dir,
               [''tmp'', ''run1'', ''stepA'', ''result''] \<mapsto> File ''42''],
      cwd = []\<rparr>"
  by (simp add: fs_defs run1_defs)

subsection \<open>Paths, resolution and growth of the file system\<close>

lemma split_sep_ne [simp]: "split_sep s \<noteq> []"
  by (induction s) (auto split: list.splits)

lemma split_sep_append_sep: "split_sep (a @ sep # b) = split_sep a @ split_sep b"
  by (induction a) (auto split: list.splits)

lemma split_sep_nosep: "sep \<notin> set a \<Longrightarrow> split_sep a = [a]"
  by (induction a) auto

lemma walk_append:
  "walk fs cur (xs @ ys) = (case walk fs cur xs of None \<Rightarrow> None | Some c \<Rightarrow> walk fs c ys)"
  by (induction xs arbitrary: cur) auto

lemma extends_refl [simp]: "extends fs fs"
  by (simp add: extends_def)

lemma extends_trans: "extends a b \<Longrightarrow> extends b c \<Longrightarrow> extends a c"
  by (auto simp: extends_def intro: map_le_trans)

lemma node_at_mono: "extends fs fs' \<Longrightarrow> node_at fs p = Some n \<Longrightarrow> node_at fs' p = Some n"
  by (auto simp: extends_def node_at_def map_le_def dom_def split: if_splits)

lemma walk_mono:
  "extends fs fs' \<Longrightarrow> walk fs cur cs = Some l \<Longrightarrow> walk fs' cur cs = Some l"
proof (induction cs arbitrary: cur)
  case Nil
  then show ?case by simp
next
  case (Cons c cs)
  from Cons.prems have d: "node_at fs cur = Some Dir"
    by (auto split: if_splits)
  with Cons.prems(1) have d': "node_at fs' cur = Some Dir"
    by (rule node_at_mono)
  from Cons.prems d d' Cons.IH [OF Cons.prems(1)] show ?case
    by (auto split: if_splits)
qed

lemma start_extends: "extends fs fs' \<Longrightarrow> start fs' p = start fs p"
  by (simp add: extends_def start_def)

lemma resolve_mono: "extends fs fs' \<Longrightarrow> resolve fs p = Some l \<Longrightarrow> resolve fs' p = Some l"
  by (auto simp: resolve_def start_extends split: if_splits intro: walk_mono)

lemma stat_mono:
  assumes "extends fs fs'" and "stat fs p = Some n"
  shows "stat fs' p = Some n"
proof -
  from assms(2) obtain l where l: "resolve fs p = Some l" and n: "node_at fs l = Some n"
    by (auto simp: stat_def split: option.splits)
  from assms(1) l have "resolve fs' p = Some l" by (rule resolve_mono)
  moreover from assms(1) n have "node_at fs' l = Some n" by (rule node_at_mono)
  ultimately show ?thesis by (simp add: stat_def)
qed

lemma extends_put: "node_at fs loc = None \<Longrightarrow> extends fs (put loc n fs)"
  by (auto simp: extends_def put_def node_at_def map_le_def split: if_splits)

lemma makedirs_extends: "extends fs (snd (makedirs cur cs fs))"
proof (induction cur cs fs rule: makedirs.induct)
  case (1 cur fs)
  then show ?case by simp
next
  case (2 cur c cs fs)
  show ?case
  proof (cases "node_at fs (cur @ [c])")
    case None
    then have "extends fs (put (cur @ [c]) Dir fs)" by (rule extends_put)
    with 2 None show ?thesis
      by (auto intro: extends_trans)
  next
    case (Some n)
    with 2 show ?thesis by (cases n) auto
  qed
qed

lemma mkdir_p_extends: "extends fs (snd (mkdir_p p fs))"
  by (simp add: mkdir_p_def makedirs_extends)

lemma walk_same_dirs:
  "(\<And>p. node_at fs' p = Some Dir \<longleftrightarrow> node_at fs p = Some Dir) \<Longrightarrow> walk fs' cur cs = walk fs cur cs"
  by (induction cs arbitrary: cur) auto

lemma node_at_put: "loc \<noteq> [] \<Longrightarrow> node_at (put loc n fs) q = (if q = loc then Some n else node_at fs q)"
  by (simp add: node_at_def put_def)

lemma cwd_put [simp]: "cwd (put loc n fs) = cwd fs"
  by (simp add: put_def)

lemma start_put [simp]: "start (put loc n fs) p = start fs p"
  by (simp add: start_def)

lemma resolve_put_file:
  assumes "node_at fs loc \<noteq> Some Dir"
  shows "resolve (put loc (File b) fs) p = resolve fs p"
proof -
  from assms have ne: "loc \<noteq> []" by (auto simp: node_at_def)
  have "walk (put loc (File b) fs) cur cs = walk fs cur cs" for cur cs
    by (rule walk_same_dirs) (use assms ne in \<open>auto simp: node_at_put\<close>)
  then show ?thesis by (simp add: resolve_def)
qed

lemma stat_after_open_put:
  assumes "open_wb fs p = Inr loc"
  shows "stat (put loc (File b) fs) p = Some (File b)"
proof -
  from assms have r: "resolve fs p = Some loc" and d: "node_at fs loc \<noteq> Some Dir"
    by (auto simp: open_wb_def split: option.splits if_splits)
  from d have ne: "loc \<noteq> []" by (auto simp: node_at_def)
  from d r have "resolve (put loc (File b) fs) p = Some loc"
    by (simp add: resolve_put_file)
  with ne show ?thesis by (simp add: stat_def node_at_put)
qed

lemma write_pickle_file_stat:
  assumes "write_pickle_file dumps p v fs = (Inr (), fs')"
  shows "\<exists>b. dumps v = Some b \<and> stat fs' p = Some (File b)"
  using assms
  by (auto simp: write_pickle_file_def stat_after_open_put split: sum.splits option.splits)

lemma fs_has_value_stat:
  "fs_has_value m h fs =
     (case stat fs (create_path_from_handle m h) of
        None \<Rightarrow> (Inr False, fs)
      | Some Dir \<Rightarrow> (Inl CheckError, fs)
      | Some (File b) \<Rightarrow> (Inr True, fs))"
  by (simp add: fs_has_value_def Let_def invariant_def os_path_exists_def os_path_isfile_def
      split: option.splits node.splits)

lemma fs_get_value_stat:
  "fs_get_value loads m h fs =
     (case stat fs (create_path_from_handle m h) of
        None \<Rightarrow> (Inl CheckError, fs)
      | Some Dir \<Rightarrow> (Inl CheckError, fs)
      | Some (File b) \<Rightarrow> (case loads b of None \<Rightarrow> (Inl PickleError, fs) | Some v \<Rightarrow> (Inr v, fs)))"
  by (simp add: fs_get_value_def fs_has_value_stat Let_def invariant_def os_path_isfile_def
      read_pickle_file_def split: option.splits node.splits)

lemma fs_set_value_unfold:
  "fs_set_value dumps m h v fs =
     (case stat fs (create_path_from_handle m h) of
        Some n \<Rightarrow> (Inl CheckError, fs)
      | None \<Rightarrow>
          (case fst (mkdir_p (root m @ [sep] @ step_key h) fs) of
             Inl e \<Rightarrow> (Inl e, snd (mkdir_p (root m @ [sep] @ step_key h) fs))
           | Inr u \<Rightarrow>
               (case stat (snd (mkdir_p (root m @ [sep] @ step_key h) fs)) (create_path_from_handle m h) of
                  Some n \<Rightarrow> (Inl CheckError, snd (mkdir_p (root m @ [sep] @ step_key h) fs))
                | None \<Rightarrow> write_pickle_file dumps (create_path_from_handle m h) v
                            (snd (mkdir_p (root m @ [sep] @ step_key h) fs)))))"
  by (simp add: fs_set_value_def fs_has_value_stat Let_def invariant_def os_path_exists_def
      split: option.splits node.splits prod.splits sum.splits)

lemma fs_set_value_stat:
  assumes "fs_set_value dumps m h v fs = (Inr (), fs')"
  shows "\<exists>b. dumps v = Some b \<and> stat fs' (create_path_from_handle m h) = Some (File b)"
proof -
  from assms have
    "write_pickle_file dumps (create_path_from_handle m h) v
       (snd (mkdir_p (root m @ [sep] @ step_key h) fs)) = (Inr (), fs')"
    by (simp add: fs_set_value_unfold split: option.splits sum.splits)
  then show ?thesis by (rule write_pickle_file_stat)
qed

lemma write_pickle_file_extends:
  assumes "stat fs p = None"
  shows "extends fs (snd (write_pickle_file dumps p v fs))"
proof (cases "open_wb fs p")
  case (Inl e)
  then show ?thesis by (simp add: write_pickle_file_def)
next
  case (Inr loc)
  then have "resolve fs p = Some loc"
    by (auto simp: open_wb_def split: option.splits if_splits)
  with assms have "node_at fs loc = None" by (simp add: stat_def)
  then have "extends fs (put loc n fs)" for n by (rule extends_put)
  with Inr show ?thesis by (simp add: write_pickle_file_def split: option.splits)
qed

lemma fs_set_value_extends: "extends fs (snd (fs_set_value dumps m h v fs))"
proof -
  let ?fs2 = "snd (mkdir_p (root m @ [sep] @ step_key h) fs)"
  have a: "extends fs ?fs2" by (rule mkdir_p_extends)
  have "extends fs (snd (write_pickle_file dumps (create_path_from_handle m h) v ?fs2))"
    if "stat ?fs2 (create_path_from_handle m h) = None"
    using a write_pickle_file_extends [OF that] by (rule extends_trans)
  with a show ?thesis
    by (simp add: fs_set_value_unfold split: option.splits sum.splits)
qed

lemma fs_writes_extends: "extends fs (fs_writes dumps m ws fs)"
proof (induction ws arbitrary: fs)
  case Nil
  then show ?case by simp
next
  case (Cons w ws)
  obtain h v where w: "w = (h, v)" by (cases w)
  have "extends fs (snd (fs_set_value dumps m h v fs))" by (rule fs_set_value_extends)
  then show ?case unfolding w fs_writes.simps using Cons.IH by (rule extends_trans)
qed

lemma fs_read_after_write:
  assumes s: "fs_set_value dumps m h v fs = (Inr (), fs')"
    and c: "\<forall>b. dumps v = Some b \<longrightarrow> loads b = Some v"
  shows "fs_has_value m h fs' = (Inr True, fs') \<and> fs_get_value loads m h fs' = (Inr v, fs')"
proof -
  from fs_set_value_stat [OF s] obtain b where b: "dumps v = Some b"
    and st: "stat fs' (create_path_from_handle m h) = Some (File b)"
    by blast
  from c b have l: "loads b = Some v" by simp
  from st l show ?thesis
    by (simp add: fs_has_value_stat fs_get_value_stat)
qed

subsection \<open>The second write\<close>

text \<open>
  What the file-system manager does on a handle that holds a value (\<^verbatim>\<open>has_value\<close> returns
  true): \<^verbatim>\<open>set_value\<close> raises the check failure that the specification calls
  \<^verbatim>\<open>PreconditionViolation\<close> and leaves the file system as it was.
\<close>

lemma fs_second_set_value:
  assumes "fst (fs_has_value m h fs) = Inr True"
  shows "fs_set_value dumps m h v2 fs = (Inl CheckError, fs)"
  using assms
  by (auto simp: fs_set_value_def fs_has_value_def Let_def invariant_def split: if_splits)

text \<open>
  C1. The in-memory manager does not do the same: \<^verbatim>\<open>set_value(("stepA", "result"), "42")\<close>
  followed by \<^verbatim>\<open>set_value(("stepA", "result"), "99")\<close> on a new manager returns both times,
  where the claim asks for a failure, and \<^verbatim>\<open>get_value\<close> then gives \<^verbatim>\<open>"99"\<close>, where the claim
  asks for the value stored first.
\<close>

theorem second_set_value_in_memory_overwrites:
  "fst (mem_set_value stepA_result ''99''
          (snd (mem_set_value stepA_result ''42'' InMemoryIntermediatesManager_init))) = Inr () \<and>
   fst (mem_get_value stepA_result
          (snd (mem_set_value stepA_result ''99''
             (snd (mem_set_value stepA_result ''42'' InMemoryIntermediatesManager_init))))) = Inr ''99''"
  by (simp add: mem_set_value_def mem_get_value_def)

subsection \<open>Reading what was written\<close>

text \<open>
  C2. After a \<^verbatim>\<open>set_value(h, v)\<close> that returned, \<^verbatim>\<open>has_value(h)\<close> returns true and
  \<^verbatim>\<open>get_value(h)\<close> returns \<open>v\<close>, on both managers and for every handle; on the file
  system under the assumption that unpickling the pickle of \<open>v\<close> gives \<open>v\<close>.
\<close>

theorem read_after_write:
  "(mem_set_value h v vals = (Inr (), vals') \<longrightarrow>
      mem_has_value h vals' = (Inr True, vals') \<and> mem_get_value h vals' = (Inr v, vals')) \<and>
   (fs_set_value dumps m h v fs = (Inr (), fs') \<and> (\<forall>b. dumps v = Some b \<longrightarrow> loads b = Some v) \<longrightarrow>
      fs_has_value m h fs' = (Inr True, fs') \<and> fs_get_value loads m h fs' = (Inr v, fs'))"
proof (intro conjI impI)
  assume "mem_set_value h v vals = (Inr (), vals')"
  then have v: "vals' = vals(h \<mapsto> v)" by (simp add: mem_set_value_def)
  show "mem_has_value h vals' = (Inr True, vals')" by (simp add: v mem_has_value_def)
  show "mem_get_value h vals' = (Inr v, vals')" by (simp add: v mem_get_value_def)
next
  assume a: "fs_set_value dumps m h v fs = (Inr (), fs') \<and>
    (\<forall>b. dumps v = Some b \<longrightarrow> loads b = Some v)"
  then show "fs_has_value m h fs' = (Inr True, fs')"
    using fs_read_after_write [of dumps m h v fs fs' loads] by blast
  from a show "fs_get_value loads m h fs' = (Inr v, fs')"
    using fs_read_after_write [of dumps m h v fs fs' loads] by blast
qed

theorem read_after_write_witness:
  "fs_set_value Some run1_manager stepA_result ''42'' run1 = (Inr (), run1_written) \<and>
   fs_has_value run1_manager stepA_result run1_written = (Inr True, run1_written) \<and>
   fs_get_value Some run1_manager stepA_result run1_written = (Inr ''42'', run1_written) \<and>
   mem_set_value stepA_result ''42'' InMemoryIntermediatesManager_init =
     (Inr (), [stepA_result \<mapsto> ''42'']) \<and>
   mem_get_value stepA_result [stepA_result \<mapsto> ''42''] = (Inr ''42'', [stepA_result \<mapsto> ''42''])"
proof -
  have f: "fst (fs_set_value Some run1_manager stepA_result ''42'' run1) = Inr ()"
    by (simp add: fs_defs run1_defs)
  then have s: "fs_set_value Some run1_manager stepA_result ''42'' run1 = (Inr (), run1_written)"
    by (simp add: run1_written_def prod_eq_iff)
  have t: "mem_set_value stepA_result ''42'' InMemoryIntermediatesManager_init =
     (Inr (), [stepA_result \<mapsto> ''42''])"
    by (simp add: mem_set_value_def InMemoryIntermediatesManager_init_def)
  from s t show ?thesis
    using read_after_write [of stepA_result "''42''" InMemoryIntermediatesManager_init
        "[stepA_result \<mapsto> ''42'']" Some run1_manager run1 run1_written Some]
    by simp
qed

subsection \<open>The constructor of the file-system manager\<close>

text \<open>
  C8. \<^verbatim>\<open>FileSystemIntermediateManager(root)\<close> returns a manager exactly when the root
  exists and is a directory; for a root that does not exist or is not a directory the
  constructor raises the check failure that the specification calls \<^verbatim>\<open>InvalidRoot\<close>, and
  there is no manager whose \<^verbatim>\<open>set_value\<close> or \<^verbatim>\<open>get_value\<close> could be called.
\<close>

theorem init_checks_root:
  "FileSystemIntermediateManager_init r fs =
     (if os_path_exists fs r \<and> os_path_isdir fs r then Inr \<lparr>root = r\<rparr> else Inl CheckError)"
  by (auto simp: FileSystemIntermediateManager_init_def invariant_def os_path_exists_def
      os_path_isdir_def)

theorem init_checks_root_witness:
  "FileSystemIntermediateManager_init ''/tmp/run1'' run1 = Inr run1_manager \<and>
   FileSystemIntermediateManager_init ''/tmp/run2'' run1 = Inl CheckError \<and>
   FileSystemIntermediateManager_init ''/tmp/run1/stepA/result'' run1_written = Inl CheckError"
  using init_checks_root [of "''/tmp/run1''" run1] init_checks_root [of "''/tmp/run2''" run1]
    init_checks_root [of "''/tmp/run1/stepA/result''" run1_written]
  by (simp add: run1_written_eq) (simp add: fs_defs run1_defs)

subsection \<open>The queries leave the store alone\<close>

text \<open>
  C10. \<^verbatim>\<open>has_value\<close> and \<^verbatim>\<open>get_value\<close> change nothing: after either call, whether it
  returned or raised, the dict of the in-memory manager and the file system of the
  file-system manager are what they were before.
\<close>

theorem queries_read_only:
  "snd (mem_has_value h vals) = vals \<and> snd (mem_get_value h vals) = vals \<and>
   snd (fs_has_value m h fs) = fs \<and> snd (fs_get_value loads m h fs) = fs"
  by (auto simp: mem_has_value_def mem_get_value_def fs_has_value_def fs_get_value_def Let_def
      invariant_def read_pickle_file_def split: option.splits node.splits)

theorem queries_read_only_witness:
  "snd (fs_has_value run1_manager stepA_result run1_written) = run1_written \<and>
   snd (fs_get_value Some run1_manager stepA_result run1_written) = run1_written \<and>
   snd (mem_get_value stepA_result [stepA_result \<mapsto> ''42'']) = [stepA_result \<mapsto> ''42'']"
  using queries_read_only [of stepA_result "[stepA_result \<mapsto> ''42'']" run1_manager run1_written Some]
  by simp

subsection \<open>From handles to paths and back\<close>

lemma slash_free_hd: "slash_free s \<Longrightarrow> \<not> (s \<noteq> [] \<and> hd s = sep)"
  by (cases s) (auto simp: slash_free_def)

lemma join_step_nil_last: "join_step r [] \<noteq> [] \<Longrightarrow> last (join_step r []) = sep"
  by (auto simp: join_step_def split: if_splits)

lemma create_path_slash_free:
  assumes "slash_free (step_key h)" and "slash_free (output_name h)"
  shows "create_path_from_handle m h =
     join_step (root m) [] @
       (if step_key h = [] then output_name h else step_key h @ [sep] @ output_name h)"
proof -
  have k: "\<not> (step_key h \<noteq> [] \<and> hd (step_key h) = sep)"
    and n: "\<not> (output_name h \<noteq> [] \<and> hd (output_name h) = sep)"
    using assms by (auto dest: slash_free_hd)
  show ?thesis
  proof (cases "step_key h = []")
    case True
    with n show ?thesis
      by (auto simp: create_path_from_handle_def os_path_join_def join_step_def)
  next
    case False
    from assms(1) False have "last (step_key h) \<noteq> sep"
      by (auto simp: slash_free_def dest: last_in_set)
    with False k n show ?thesis
      by (auto simp: create_path_from_handle_def os_path_join_def join_step_def)
  qed
qed

lemma takeWhile_sep: "sep \<notin> set a \<Longrightarrow> takeWhile (\<lambda>c. c \<noteq> sep) (a @ sep # b) = a"
  by (induction a) auto

lemma append_sep_inj:
  assumes "sep \<notin> set a" and "sep \<notin> set a'" and "a @ sep # b = a' @ sep # b'"
  shows "a = a' \<and> b = b'"
proof -
  have "takeWhile (\<lambda>c. c \<noteq> sep) (a @ sep # b) = a" using assms(1) by (rule takeWhile_sep)
  moreover have "takeWhile (\<lambda>c. c \<noteq> sep) (a' @ sep # b') = a'"
    using assms(2) by (rule takeWhile_sep)
  ultimately have "a = a'" using assms(3) by simp
  with assms(3) show ?thesis by simp
qed

lemma suffix_inj:
  assumes "slash_free k" "slash_free n" "slash_free k'" "slash_free n'"
    and "(if k = [] then n else k @ [sep] @ n) = (if k' = [] then n' else k' @ [sep] @ n')"
  shows "k = k' \<and> n = n'"
proof (cases "k = []")
  case True
  show ?thesis
  proof (cases "k' = []")
    case True
    with \<open>k = []\<close> assms(5) show ?thesis by simp
  next
    case False
    with True assms(5) have "n = k' @ [sep] @ n'" by simp
    then have "sep \<in> set n" by simp
    with assms(2) show ?thesis by (simp add: slash_free_def)
  qed
next
  case False
  show ?thesis
  proof (cases "k' = []")
    case True
    with False assms(5) have "n' = k @ [sep] @ n" by simp
    then have "sep \<in> set n'" by simp
    with assms(4) show ?thesis by (simp add: slash_free_def)
  next
    case k': False
    with False assms(5) have "k @ sep # n = k' @ sep # n'" by simp
    with assms(1,3) show ?thesis by (auto simp: slash_free_def dest: append_sep_inj)
  qed
qed

lemma create_path_inj:
  assumes "slash_free (step_key h)" "slash_free (output_name h)"
    "slash_free (step_key h')" "slash_free (output_name h')"
    and e: "create_path_from_handle m h = create_path_from_handle m h'"
  shows "h = h'"
proof -
  from e have "join_step (root m) [] @
       (if step_key h = [] then output_name h else step_key h @ [sep] @ output_name h) =
     join_step (root m) [] @
       (if step_key h' = [] then output_name h' else step_key h' @ [sep] @ output_name h')"
    unfolding create_path_slash_free [OF assms(1,2)] create_path_slash_free [OF assms(3,4)] .
  then have "(if step_key h = [] then output_name h else step_key h @ [sep] @ output_name h) =
      (if step_key h' = [] then output_name h' else step_key h' @ [sep] @ output_name h')"
    by (simp only: same_append_eq)
  with assms(1-4) have "step_key h = step_key h' \<and> output_name h = output_name h'"
    by (rule suffix_inj)
  then show ?thesis by simp
qed

lemma segments_of_path:
  assumes "slash_free (step_key h)" "slash_free (output_name h)" "step_key h \<noteq> []"
  shows "segments_under_root m (create_path_from_handle m h) = [step_key h, output_name h]"
proof -
  have "segments_under_root m (create_path_from_handle m h) =
      split_sep (step_key h @ sep # output_name h)"
    using assms by (simp add: create_path_slash_free segments_under_root_def)
  also have "\<dots> = [step_key h, output_name h]"
    using assms by (simp add: split_sep_append_sep split_sep_nosep slash_free_def)
  finally show ?thesis .
qed

text \<open>
  C4, as amended. For handles whose step key and output name contain no separator, the
  derived paths of two distinct handles are distinct, whatever the root; and when the
  step key is not empty, the two segments of the derived path under the root are the
  step key and the output name, so they give the handle back.
\<close>

theorem path_injective_slash_free:
  "(slash_free (step_key h) \<and> slash_free (output_name h) \<and>
    slash_free (step_key h') \<and> slash_free (output_name h') \<and>
    create_path_from_handle m h = create_path_from_handle m h' \<longrightarrow> h = h') \<and>
   (slash_free (step_key h) \<and> slash_free (output_name h) \<and> step_key h \<noteq> [] \<longrightarrow>
      handle_of_segments (segments_under_root m (create_path_from_handle m h)) = Some h)"
  by (auto simp: segments_of_path handle_of_segments_def dest: create_path_inj)

theorem path_injective_slash_free_witness:
  "slash_free ''stepA'' \<and> slash_free ''result'' \<and>
   create_path_from_handle run1_manager stepA_result = ''/tmp/run1/stepA/result'' \<and>
   handle_of_segments (segments_under_root run1_manager ''/tmp/run1/stepA/result'') =
     Some stepA_result"
proof -
  have s: "slash_free ''stepA'' \<and> slash_free ''result''"
    by (simp add: slash_free_def sep_def)
  have p: "create_path_from_handle run1_manager stepA_result = ''/tmp/run1/stepA/result''"
    by (simp add: fs_defs run1_defs)
  from s p show ?thesis
    using path_injective_slash_free [of stepA_result stepA_result run1_manager]
    by (simp add: stepA_result_def)
qed

text \<open>
  The claim as it is written fails: the handles \<^verbatim>\<open>("a/b", "c")\<close> and \<^verbatim>\<open>("a", "b/c")\<close> are
  distinct and have the same derived path.
\<close>

theorem path_not_injective_counterexample:
  "create_path_from_handle run1_manager \<lparr>step_key = ''a/b'', output_name = ''c''\<rparr> =
   create_path_from_handle run1_manager \<lparr>step_key = ''a'', output_name = ''b/c''\<rparr> \<and>
   \<lparr>step_key = ''a/b'', output_name = ''c''\<rparr> \<noteq> \<lparr>step_key = ''a'', output_name = ''b/c''\<rparr>"
  by (simp add: fs_defs run1_defs)

subsection \<open>Where the value lives\<close>

lemma walk_skip_empty:
  assumes "ys \<noteq> []"
  shows "walk fs cur (xs @ [] # ys) = walk fs cur (xs @ ys)"
proof -
  from assms obtain y ys' where ys: "ys = y # ys'" by (cases ys) auto
  have "walk fs c ([] # ys) = walk fs c ys" for c
    by (simp add: ys)
  then show ?thesis by (simp add: walk_append split: option.splits)
qed

lemma join_step_relative:
  assumes "path \<noteq> []" and "relative b"
  shows "join_step path b = (if last path = sep then path @ b else path @ sep # b)"
  using assms by (auto simp: join_step_def relative_def)

lemma join_step_ne: "path \<noteq> [] \<Longrightarrow> relative b \<Longrightarrow> join_step path b \<noteq> []"
  by (simp add: join_step_relative)

lemma join_step_hd: "path \<noteq> [] \<Longrightarrow> relative b \<Longrightarrow> hd (join_step path b) = hd path"
  by (simp add: join_step_relative)

lemma walk_join_step_sep:
  assumes "relative b"
  shows "walk fs cur (split_sep (join_step (a @ [sep]) b)) =
     walk fs cur (split_sep ((a @ [sep]) @ sep # b))"
proof -
  have "join_step (a @ [sep]) b = a @ sep # b"
    using assms by (simp add: join_step_relative)
  then have l: "split_sep (join_step (a @ [sep]) b) = split_sep a @ split_sep b"
    by (simp add: split_sep_append_sep)
  have "(a @ [sep]) @ sep # b = a @ sep # (sep # b)" by simp
  then have "split_sep ((a @ [sep]) @ sep # b) = split_sep a @ split_sep (sep # b)"
    by (simp only: split_sep_append_sep)
  then have r: "split_sep ((a @ [sep]) @ sep # b) = split_sep a @ [] # split_sep b"
    by simp
  show ?thesis unfolding l r by (rule walk_skip_empty [symmetric]) simp
qed

lemma walk_join_step:
  assumes "path \<noteq> []" and "relative b"
  shows "walk fs cur (split_sep (join_step path b)) = walk fs cur (split_sep (path @ sep # b))"
proof (cases "last path = sep")
  case False
  with assms show ?thesis by (simp add: join_step_relative)
next
  case True
  with assms(1) obtain a where "path = a @ [sep]"
    by (metis append_butlast_last_id)
  with assms(2) show ?thesis by (simp only: walk_join_step_sep)
qed

lemma resolve_create_path:
  assumes "root m \<noteq> []" and "relative (step_key h)" and "relative (output_name h)"
  shows "resolve fs (create_path_from_handle m h) =
     resolve fs (root m @ [sep] @ step_key h @ [sep] @ output_name h)"
proof -
  let ?P = "join_step (root m) (step_key h)"
  let ?c = "start fs (root m)"
  have P: "?P \<noteq> []" using assms(1,2) by (rule join_step_ne)
  have J: "create_path_from_handle m h = join_step ?P (output_name h)"
    by (simp add: create_path_from_handle_def os_path_join_def)
  have ne: "join_step ?P (output_name h) \<noteq> []" using P assms(3) by (rule join_step_ne)
  have hd: "hd (join_step ?P (output_name h)) = hd (root m)"
    using P assms by (simp add: join_step_hd)
  have st: "start fs (join_step ?P (output_name h)) = ?c"
    using ne hd assms(1) by (simp add: start_def)
  have st': "start fs (root m @ [sep] @ step_key h @ [sep] @ output_name h) = ?c"
    using assms(1) by (simp add: start_def)
  have "walk fs ?c (split_sep (join_step ?P (output_name h))) =
      walk fs ?c (split_sep (?P @ sep # output_name h))"
    using P assms(3) by (rule walk_join_step)
  also have "\<dots> = (case walk fs ?c (split_sep ?P) of None \<Rightarrow> None
      | Some c \<Rightarrow> walk fs c (split_sep (output_name h)))"
    by (simp add: split_sep_append_sep walk_append)
  also have "walk fs ?c (split_sep ?P) = walk fs ?c (split_sep (root m @ sep # step_key h))"
    using assms(1,2) by (rule walk_join_step)
  also have "(case walk fs ?c (split_sep (root m @ sep # step_key h)) of None \<Rightarrow> None
      | Some c \<Rightarrow> walk fs c (split_sep (output_name h))) =
      walk fs ?c (split_sep ((root m @ sep # step_key h) @ sep # output_name h))"
    by (simp only: split_sep_append_sep walk_append)
  finally show ?thesis
    using ne st st' by (simp add: resolve_def J)
qed

lemma stat_create_path:
  assumes "root m \<noteq> []" and "relative (step_key h)" and "relative (output_name h)"
  shows "stat fs (create_path_from_handle m h) =
     stat fs (root m @ [sep] @ step_key h @ [sep] @ output_name h)"
  by (simp add: stat_def resolve_create_path [OF assms])

text \<open>
  C6, as amended. After a \<^verbatim>\<open>set_value(h, v)\<close> that returned, the derived path
  \<^verbatim>\<open>os.path.join(root, step_key, output_name)\<close>, a function of the root and the handle
  alone, is a regular file that holds the pickle of \<open>v\<close>. When the root is not empty and
  neither the step key nor the output name begins with a separator, this file is the one
  at \<^verbatim>\<open>root/step_key/output_name\<close>.
\<close>

theorem value_lives_at_path:
  "(fs_set_value dumps m h v fs = (Inr (), fs') \<longrightarrow>
      (\<exists>b. dumps v = Some b \<and> stat fs' (create_path_from_handle m h) = Some (File b))) \<and>
   (root m \<noteq> [] \<and> relative (step_key h) \<and> relative (output_name h) \<and>
    fs_set_value dumps m h v fs = (Inr (), fs') \<longrightarrow>
      (\<exists>b. dumps v = Some b \<and>
           stat fs' (root m @ [sep] @ step_key h @ [sep] @ output_name h) = Some (File b)))"
proof (intro conjI impI)
  assume "fs_set_value dumps m h v fs = (Inr (), fs')"
  then show "\<exists>b. dumps v = Some b \<and> stat fs' (create_path_from_handle m h) = Some (File b)"
    by (rule fs_set_value_stat)
next
  assume a: "root m \<noteq> [] \<and> relative (step_key h) \<and> relative (output_name h) \<and>
    fs_set_value dumps m h v fs = (Inr (), fs')"
  then have s: "fs_set_value dumps m h v fs = (Inr (), fs')" by simp
  from a have r: "root m \<noteq> []" and k: "relative (step_key h)" and n: "relative (output_name h)"
    by simp_all
  from fs_set_value_stat [OF s] obtain b where b: "dumps v = Some b"
    and st: "stat fs' (create_path_from_handle m h) = Some (File b)"
    by blast
  from st have "stat fs' (root m @ [sep] @ step_key h @ [sep] @ output_name h) = Some (File b)"
    by (simp only: stat_create_path [OF r k n])
  with b show "\<exists>b. dumps v = Some b \<and>
      stat fs' (root m @ [sep] @ step_key h @ [sep] @ output_name h) = Some (File b)"
    by blast
qed

theorem value_lives_at_path_witness:
  "root run1_manager \<noteq> [] \<and> relative ''stepA'' \<and> relative ''result'' \<and>
   fs_set_value Some run1_manager stepA_result ''42'' run1 = (Inr (), run1_written) \<and>
   stat run1_written ''/tmp/run1/stepA/result'' = Some (File ''42'')"
proof -
  have f: "fst (fs_set_value Some run1_manager stepA_result ''42'' run1) = Inr ()"
    by (simp add: fs_defs run1_defs)
  then have s: "fs_set_value Some run1_manager stepA_result ''42'' run1 = (Inr (), run1_written)"
    by (simp add: run1_written_def prod_eq_iff)
  have r: "root run1_manager \<noteq> [] \<and> relative ''stepA'' \<and> relative ''result''"
    by (simp add: run1_manager_def relative_def sep_def)
  from s r show ?thesis
    using value_lives_at_path [of Some run1_manager stepA_result "''42''" run1 run1_written]
    by (simp add: stepA_result_def run1_manager_def sep_def)
qed

text \<open>
  The claim as it is written fails for a step key that begins with a separator:
  \<^verbatim>\<open>os.path.join\<close> drops the root, \<^verbatim>\<open>set_value\<close> returns, and the value is in \<^verbatim>\<open>/tmp/x\<close>
  while nothing exists at \<^verbatim>\<open>root/step_key/output_name\<close>.
\<close>

theorem value_outside_root_counterexample:
  "fst (fs_set_value Some run1_manager \<lparr>step_key = ''/tmp'', output_name = ''x''\<rparr> ''42'' run1) = Inr () \<and>
   stat (snd (fs_set_value Some run1_manager \<lparr>step_key = ''/tmp'', output_name = ''x''\<rparr> ''42'' run1))
     ''/tmp/run1//tmp/x'' = None \<and>
   stat (snd (fs_set_value Some run1_manager \<lparr>step_key = ''/tmp'', output_name = ''x''\<rparr> ''42'' run1))
     ''/tmp/x'' = Some (File ''42'')"
  by (simp add: fs_defs run1_defs)

subsection \<open>Simple handles\<close>

lemma simple_relative: "simple_name s \<Longrightarrow> relative s"
  by (cases s) (auto simp: simple_name_def relative_def)

lemma walk_simple:
  assumes "simple_name k" and "simple_name n" and "node_at fs r = Some Dir"
  shows "walk fs r [k, n] = (if node_at fs (r @ [k]) = Some Dir then Some (r @ [k, n]) else None)"
  using assms by (simp add: simple_name_def)

lemma isdir_resolve:
  assumes "os_path_isdir fs p"
  obtains r where "resolve fs p = Some r" and "node_at fs r = Some Dir"
  using assms by (auto simp: os_path_isdir_def stat_def split: option.splits)

lemma resolve_simple:
  assumes r: "resolve fs (root m) = Some r" and d: "node_at fs r = Some Dir"
    and h: "simple_handle h"
  shows "resolve fs (create_path_from_handle m h) =
     (if node_at fs (r @ [step_key h]) = Some Dir
      then Some (r @ [step_key h, output_name h]) else None)"
proof -
  from h have k: "simple_name (step_key h)" and n: "simple_name (output_name h)"
    by (simp_all add: simple_handle_def)
  from r have ne: "root m \<noteq> []" by (auto simp: resolve_def split: if_splits)
  with r have w: "walk fs (start fs (root m)) (split_sep (root m)) = Some r"
    by (simp add: resolve_def)
  have st: "start fs (root m @ [sep] @ step_key h @ [sep] @ output_name h) = start fs (root m)"
    using ne by (simp add: start_def)
  have sp: "split_sep (root m @ [sep] @ step_key h @ [sep] @ output_name h) =
      split_sep (root m) @ [step_key h, output_name h]"
    using k n by (simp add: split_sep_append_sep split_sep_nosep simple_name_def)
  have "resolve fs (create_path_from_handle m h) =
      resolve fs (root m @ [sep] @ step_key h @ [sep] @ output_name h)"
    using ne k n by (simp add: resolve_create_path simple_relative)
  also have "\<dots> = walk fs r [step_key h, output_name h]"
    unfolding resolve_def st sp by (simp add: walk_append w)
  also have "\<dots> = (if node_at fs (r @ [step_key h]) = Some Dir
      then Some (r @ [step_key h, output_name h]) else None)"
    using k n d by (rule walk_simple)
  finally show ?thesis .
qed

lemma stat_simple:
  assumes "resolve fs (root m) = Some r" and "node_at fs r = Some Dir" and "simple_handle h"
  shows "stat fs (create_path_from_handle m h) =
     (if node_at fs (r @ [step_key h]) = Some Dir
      then node_at fs (r @ [step_key h, output_name h]) else None)"
  by (simp add: stat_def resolve_simple [OF assms])

lemma walk_dir_start:
  "walk fs cur xs = Some c \<Longrightarrow> node_at fs c = Some Dir \<Longrightarrow> node_at fs cur = Some Dir"
  by (cases xs) (auto split: if_splits)

lemma makedirs_append:
  "walk fs cur xs = Some c \<Longrightarrow> node_at fs c = Some Dir \<Longrightarrow>
     makedirs cur (xs @ ys) fs = makedirs c ys fs"
proof (induction xs arbitrary: cur)
  case Nil
  then show ?case by simp
next
  case (Cons x xs)
  from Cons.prems have cur: "node_at fs cur = Some Dir"
    by (rule walk_dir_start)
  show ?case
  proof (cases "x = [] \<or> x = ''.''")
    case True
    with Cons cur show ?thesis by auto
  next
    case False
    show ?thesis
    proof (cases "x = ''..''")
      case True
      with Cons cur show ?thesis by auto
    next
      case nd: False
      with False Cons.prems cur have w: "walk fs (cur @ [x]) xs = Some c" by simp
      from w Cons.prems(2) have "node_at fs (cur @ [x]) = Some Dir" by (rule walk_dir_start)
      with False nd cur Cons.IH [OF w Cons.prems(2)] show ?thesis by simp
    qed
  qed
qed

lemma mkdir_p_simple:
  assumes r: "resolve fs (root m) = Some r" and d: "node_at fs r = Some Dir"
    and k: "simple_name k"
  shows "mkdir_p (root m @ [sep] @ k) fs =
     (case node_at fs (r @ [k]) of
        None \<Rightarrow> (Inr (), put (r @ [k]) Dir fs)
      | Some Dir \<Rightarrow> (Inr (), fs)
      | Some (File b) \<Rightarrow> (Inl OSError, fs))"
proof -
  from r have ne: "root m \<noteq> []" by (auto simp: resolve_def split: if_splits)
  with r have w: "walk fs (start fs (root m)) (split_sep (root m)) = Some r"
    by (simp add: resolve_def)
  have st: "start fs (root m @ [sep] @ k) = start fs (root m)"
    using ne by (simp add: start_def)
  have sp: "split_sep (root m @ [sep] @ k) = split_sep (root m) @ [k]"
    using k by (simp add: split_sep_append_sep split_sep_nosep simple_name_def)
  have "mkdir_p (root m @ [sep] @ k) fs = makedirs r [k] fs"
    unfolding mkdir_p_def st sp using makedirs_append [OF w d] by simp
  also have "\<dots> = (case node_at fs (r @ [k]) of
        None \<Rightarrow> (Inr (), put (r @ [k]) Dir fs)
      | Some Dir \<Rightarrow> (Inr (), fs)
      | Some (File b) \<Rightarrow> (Inl OSError, fs))"
    using k d by (simp add: simple_name_def node_at_put split: option.splits node.splits)
  finally show ?thesis .
qed

lemma last_split_create_path:
  assumes "simple_handle h"
  shows "last (split_sep (create_path_from_handle m h)) = output_name h"
proof -
  from assms have k: "slash_free (step_key h)" and n: "slash_free (output_name h)"
    and ne: "step_key h \<noteq> []"
    by (simp_all add: simple_handle_def simple_name_def slash_free_def)
  have "create_path_from_handle m h =
      (join_step (root m) [] @ step_key h) @ sep # output_name h"
    using ne by (simp add: create_path_slash_free [OF k n])
  moreover have "split_sep (output_name h) = [output_name h]"
    using n by (simp add: split_sep_nosep slash_free_def)
  ultimately have "split_sep (create_path_from_handle m h) =
      split_sep (join_step (root m) [] @ step_key h) @ [output_name h]"
    by (simp only: split_sep_append_sep)
  then show ?thesis by simp
qed

lemma write_simple:
  assumes r: "resolve fs (root m) = Some r" and d: "node_at fs r = Some Dir"
    and h: "simple_handle h"
    and k: "node_at fs (r @ [step_key h]) = Some Dir"
    and f: "node_at fs (r @ [step_key h, output_name h]) = None"
  shows "write_pickle_file dumps (create_path_from_handle m h) v fs =
     (case dumps v of
        None \<Rightarrow> (Inl PickleError, put (r @ [step_key h, output_name h]) (File []) fs)
      | Some b \<Rightarrow> (Inr (), put (r @ [step_key h, output_name h]) (File b) fs))"
proof -
  have res: "resolve fs (create_path_from_handle m h) = Some (r @ [step_key h, output_name h])"
    using k by (simp add: resolve_simple [OF r d h])
  from h have "output_name h \<notin> {[], ''.'', ''..''}"
    by (auto simp: simple_handle_def simple_name_def)
  then have "open_wb fs (create_path_from_handle m h) = Inr (r @ [step_key h, output_name h])"
    using f by (simp add: open_wb_def res last_split_create_path [OF h])
  then show ?thesis by (simp add: write_pickle_file_def)
qed

text \<open>
  What \<^verbatim>\<open>set_value\<close> on a simple handle can leave behind: nothing new, the directory of
  the step, the file, or both.
\<close>

lemma fs_set_value_simple_cases:
  assumes r: "resolve fs (root m) = Some r" and d: "node_at fs r = Some Dir"
    and h: "simple_handle h"
  shows "snd (fs_set_value dumps m h v fs) = fs \<or>
     (node_at fs (r @ [step_key h]) = None \<and>
        snd (fs_set_value dumps m h v fs) = put (r @ [step_key h]) Dir fs) \<or>
     (node_at fs (r @ [step_key h]) = Some Dir \<and>
      node_at fs (r @ [step_key h, output_name h]) = None \<and>
        (\<exists>b. snd (fs_set_value dumps m h v fs) = put (r @ [step_key h, output_name h]) (File b) fs)) \<or>
     (node_at fs (r @ [step_key h]) = None \<and>
      node_at fs (r @ [step_key h, output_name h]) = None \<and>
        (\<exists>b. snd (fs_set_value dumps m h v fs) =
           put (r @ [step_key h, output_name h]) (File b) (put (r @ [step_key h]) Dir fs)))"
proof -
  let ?d = "r @ [step_key h]" and ?f = "r @ [step_key h, output_name h]"
  let ?p = "create_path_from_handle m h"
  from h have kn: "simple_name (step_key h)" by (simp add: simple_handle_def)
  note mk = mkdir_p_simple [OF r d kn]
  show ?thesis
  proof (cases "stat fs ?p")
    case (Some n)
    then show ?thesis by (simp add: fs_set_value_unfold)
  next
    case None
    show ?thesis
    proof (cases "node_at fs ?d")
      case nd: None
      let ?fs2 = "put ?d Dir fs"
      have m2: "mkdir_p (root m @ [sep] @ step_key h) fs = (Inr (), ?fs2)"
        using nd mk by simp
      have e: "extends fs ?fs2" using nd by (rule extends_put)
      have r2: "resolve ?fs2 (root m) = Some r" using e r by (rule resolve_mono)
      have d2: "node_at ?fs2 r = Some Dir" using e d by (rule node_at_mono)
      have k2: "node_at ?fs2 ?d = Some Dir" by (simp add: node_at_put)
      have f2: "node_at ?fs2 ?f = node_at fs ?f" by (simp add: node_at_put)
      have s2: "stat ?fs2 ?p = node_at fs ?f"
        using k2 f2 by (simp add: stat_simple [OF r2 d2 h])
      show ?thesis
      proof (cases "node_at fs ?f")
        case nf: None
        with f2 have f2': "node_at ?fs2 ?f = None" by simp
        have "write_pickle_file dumps ?p v ?fs2 =
            (case dumps v of None \<Rightarrow> (Inl PickleError, put ?f (File []) ?fs2)
             | Some b \<Rightarrow> (Inr (), put ?f (File b) ?fs2))"
          using r2 d2 h k2 f2' by (rule write_simple)
        then have "\<exists>b. snd (fs_set_value dumps m h v fs) = put ?f (File b) ?fs2"
          using None m2 s2 nf by (auto simp: fs_set_value_unfold split: option.splits)
        with nd nf show ?thesis by blast
      next
        case (Some n)
        then have "snd (fs_set_value dumps m h v fs) = ?fs2"
          using None m2 s2 by (simp add: fs_set_value_unfold)
        with nd show ?thesis by blast
      qed
    next
      case (Some n)
      show ?thesis
      proof (cases n)
        case (File b)
        with Some mk have "mkdir_p (root m @ [sep] @ step_key h) fs = (Inl OSError, fs)"
          by simp
        with None show ?thesis by (simp add: fs_set_value_unfold)
      next
        case Dir
        with Some have kd: "node_at fs ?d = Some Dir" by simp
        with mk have m2: "mkdir_p (root m @ [sep] @ step_key h) fs = (Inr (), fs)"
          by simp
        from None kd have nf: "node_at fs ?f = None"
          by (simp add: stat_simple [OF r d h])
        have "write_pickle_file dumps ?p v fs =
            (case dumps v of None \<Rightarrow> (Inl PickleError, put ?f (File []) fs)
             | Some b \<Rightarrow> (Inr (), put ?f (File b) fs))"
          using r d h kd nf by (rule write_simple)
        then have "\<exists>b. snd (fs_set_value dumps m h v fs) = put ?f (File b) fs"
          using None m2 by (auto simp: fs_set_value_unfold split: option.splits)
        with kd nf show ?thesis by blast
      qed
    qed
  qed
qed

lemma tree_shaped_put:
  assumes t: "tree_shaped fs" and n: "node_at fs loc = None"
    and p: "node_at fs (butlast loc) = Some Dir"
  shows "tree_shaped (put loc x fs)"
proof -
  from n have ne: "loc \<noteq> []" by (auto simp: node_at_def)
  from n p have bl: "butlast loc \<noteq> loc" by auto
  have "node_at (put loc x fs) (butlast q) = Some Dir" if q: "nodes (put loc x fs) q \<noteq> None" for q
  proof (cases "q = loc")
    case True
    with p bl ne show ?thesis by (simp add: node_at_put)
  next
    case False
    with q have "nodes fs q \<noteq> None" by (simp add: put_def)
    with t have b: "node_at fs (butlast q) = Some Dir" by (simp add: tree_shaped_def)
    with n have "butlast q \<noteq> loc" by auto
    with b ne show ?thesis by (simp add: node_at_put)
  qed
  then show ?thesis by (simp add: tree_shaped_def)
qed

lemma tree_shaped_child:
  assumes t: "tree_shaped fs" and n: "node_at fs loc = None"
  shows "node_at fs (loc @ [c]) = None"
proof (rule ccontr)
  assume "node_at fs (loc @ [c]) \<noteq> None"
  then have "nodes fs (loc @ [c]) \<noteq> None" by (simp add: node_at_def)
  with t have "node_at fs (butlast (loc @ [c])) = Some Dir"
    unfolding tree_shaped_def by blast
  with n show False by simp
qed

lemma fs_set_value_tree_shaped:
  assumes t: "tree_shaped fs" and i: "os_path_isdir fs (root m)" and h: "simple_handle h"
  shows "tree_shaped (snd (fs_set_value dumps m h v fs))"
proof -
  from i obtain r where r: "resolve fs (root m) = Some r" and d: "node_at fs r = Some Dir"
    by (rule isdir_resolve)
  let ?d = "r @ [step_key h]" and ?f = "r @ [step_key h, output_name h]"
  have td: "tree_shaped (put ?d Dir fs)" if "node_at fs ?d = None"
    using t that d by (simp add: tree_shaped_put)
  have tf: "tree_shaped (put ?f (File b) fs)"
    if "node_at fs ?d = Some Dir" "node_at fs ?f = None" for b
  proof -
    have "butlast ?f = ?d" by (simp add: butlast_append)
    with t that show ?thesis by (simp add: tree_shaped_put)
  qed
  have tdf: "tree_shaped (put ?f (File b) (put ?d Dir fs))"
    if nd: "node_at fs ?d = None" and nf: "node_at fs ?f = None" for b
  proof -
    have bl: "butlast ?f = ?d" by (simp add: butlast_append)
    have "node_at (put ?d Dir fs) ?f = None" using nf by (simp add: node_at_put)
    moreover have "node_at (put ?d Dir fs) (butlast ?f) = Some Dir"
      unfolding bl by (simp add: node_at_put)
    ultimately show ?thesis using td [OF nd] by (simp add: tree_shaped_put)
  qed
  from fs_set_value_simple_cases [OF r d h, of dumps v] t td tf tdf show ?thesis
    by (elim disjE conjE exE) simp_all
qed

lemma fs_set_value_isdir:
  assumes "os_path_isdir fs p"
  shows "os_path_isdir (snd (fs_set_value dumps m h v fs)) p"
  using assms fs_set_value_extends [of fs dumps m h v]
  by (auto simp: os_path_isdir_def intro: stat_mono)

text \<open>The path of another simple handle is what it was before the call.\<close>

lemma fs_set_value_frame:
  assumes t: "tree_shaped fs" and i: "os_path_isdir fs (root m)"
    and h: "simple_handle h" and h': "simple_handle h'" and ne: "h' \<noteq> h"
  shows "stat (snd (fs_set_value dumps m h v fs)) (create_path_from_handle m h') =
     stat fs (create_path_from_handle m h')"
proof -
  from i obtain r where r: "resolve fs (root m) = Some r" and d: "node_at fs r = Some Dir"
    by (rule isdir_resolve)
  let ?fs' = "snd (fs_set_value dumps m h v fs)"
  let ?d = "r @ [step_key h]" and ?f = "r @ [step_key h, output_name h]"
  let ?d' = "r @ [step_key h']" and ?f' = "r @ [step_key h', output_name h']"
  have e: "extends fs ?fs'" by (rule fs_set_value_extends)
  have r': "resolve ?fs' (root m) = Some r" using e r by (rule resolve_mono)
  have d': "node_at ?fs' r = Some Dir" using e d by (rule node_at_mono)
  have s: "stat fs (create_path_from_handle m h') =
      (if node_at fs ?d' = Some Dir then node_at fs ?f' else None)"
    by (rule stat_simple [OF r d h'])
  have s': "stat ?fs' (create_path_from_handle m h') =
      (if node_at ?fs' ?d' = Some Dir then node_at ?fs' ?f' else None)"
    by (rule stat_simple [OF r' d' h'])
  from ne have fne: "?f' \<noteq> ?f" by auto
  have dne: "?f' \<noteq> ?d" "?d' \<noteq> ?f" by simp_all
  have child: "node_at fs ?f' = None" if "node_at fs ?d' = None"
    using tree_shaped_child [OF t that, of "output_name h'"] by simp
  from fs_set_value_simple_cases [OF r d h, of dumps v] show ?thesis
  proof (elim disjE conjE exE)
    assume "?fs' = fs"
    then show ?thesis by simp
  next
    assume nd: "node_at fs ?d = None" and eq: "?fs' = put ?d Dir fs"
    have "node_at ?fs' ?f' = node_at fs ?f'" using dne by (simp add: eq node_at_put)
    moreover have "node_at ?fs' ?d' = (if ?d' = ?d then Some Dir else node_at fs ?d')"
      by (simp add: eq node_at_put)
    ultimately show ?thesis unfolding s s' using nd child by auto
  next
    fix b
    assume eq: "?fs' = put ?f (File b) fs"
    have "node_at ?fs' ?f' = node_at fs ?f'" using fne by (auto simp: eq node_at_put)
    moreover have "node_at ?fs' ?d' = node_at fs ?d'" using dne by (simp add: eq node_at_put)
    ultimately show ?thesis unfolding s s' by simp
  next
    fix b
    assume nd: "node_at fs ?d = None"
      and eq: "?fs' = put ?f (File b) (put ?d Dir fs)"
    have "node_at ?fs' ?f' = node_at fs ?f'" using fne dne by (auto simp: eq node_at_put)
    moreover have "node_at ?fs' ?d' = (if ?d' = ?d then Some Dir else node_at fs ?d')"
      using dne by (simp add: eq node_at_put)
    ultimately show ?thesis unfolding s s' using nd child by auto
  qed
qed

lemma fs_writes_absent:
  assumes "tree_shaped fs" and "os_path_isdir fs (root m)" and "simple_handle h"
    and "\<forall>w \<in> set ws. simple_handle (fst w) \<and> fst w \<noteq> h"
  shows "stat (fs_writes dumps m ws fs) (create_path_from_handle m h) =
     stat fs (create_path_from_handle m h)"
  using assms
proof (induction ws arbitrary: fs)
  case Nil
  then show ?case by simp
next
  case (Cons w ws)
  obtain h' v where w: "w = (h', v)" by (cases w)
  let ?fs1 = "snd (fs_set_value dumps m h' v fs)"
  from Cons.prems(4) w have sh': "simple_handle h'" and ne: "h \<noteq> h'" by auto
  have t1: "tree_shaped ?fs1"
    using Cons.prems(1,2) sh' by (rule fs_set_value_tree_shaped)
  have i1: "os_path_isdir ?fs1 (root m)"
    using Cons.prems(2) by (rule fs_set_value_isdir)
  have rest: "\<forall>w \<in> set ws. simple_handle (fst w) \<and> fst w \<noteq> h"
    using Cons.prems(4) by simp
  have "stat (fs_writes dumps m ws ?fs1) (create_path_from_handle m h) =
      stat ?fs1 (create_path_from_handle m h)"
    using t1 i1 Cons.prems(3) rest by (rule Cons.IH)
  also have "\<dots> = stat fs (create_path_from_handle m h)"
    using Cons.prems(1,2) sh' Cons.prems(3) ne by (rule fs_set_value_frame)
  finally show ?case by (simp add: w)
qed

lemma mem_writes_absent:
  "h \<notin> fst ` set ws \<Longrightarrow> mem_writes ws vals h = vals h"
  by (induction ws arbitrary: vals) (auto simp: mem_set_value_def)

lemma fst_fs_has_value: "fst (fs_has_value m h fs) =
  (case stat fs (create_path_from_handle m h) of None \<Rightarrow> Inr False | Some Dir \<Rightarrow> Inl CheckError
   | Some (File b) \<Rightarrow> Inr True)"
  by (simp add: fs_has_value_stat split: option.splits node.splits)

lemma fst_fs_get_value: "fst (fs_get_value loads m h fs) =
  (case stat fs (create_path_from_handle m h) of None \<Rightarrow> Inl CheckError | Some Dir \<Rightarrow> Inl CheckError
   | Some (File b) \<Rightarrow> (case loads b of None \<Rightarrow> Inl PickleError | Some v \<Rightarrow> Inr v))"
  by (simp add: fs_get_value_stat split: option.splits node.splits)

lemma two_writes_readable:
  assumes s1: "fs_set_value dumps m h1 v1 fs = (Inr (), fs1)"
    and s2: "fs_set_value dumps m h2 v2 fs1 = (Inr (), fs2)"
    and c1: "\<forall>b. dumps v1 = Some b \<longrightarrow> loads b = Some v1"
    and c2: "\<forall>b. dumps v2 = Some b \<longrightarrow> loads b = Some v2"
  shows "fst (fs_get_value loads m h1 fs2) = Inr v1 \<and> fst (fs_get_value loads m h2 fs2) = Inr v2"
proof -
  from fs_set_value_stat [OF s1] obtain b1 where b1: "dumps v1 = Some b1"
    and st1: "stat fs1 (create_path_from_handle m h1) = Some (File b1)" by blast
  from fs_set_value_stat [OF s2] obtain b2 where b2: "dumps v2 = Some b2"
    and st2: "stat fs2 (create_path_from_handle m h2) = Some (File b2)" by blast
  have "extends fs1 (snd (fs_set_value dumps m h2 v2 fs1))" by (rule fs_set_value_extends)
  with s2 have "extends fs1 fs2" by simp
  then have st1': "stat fs2 (create_path_from_handle m h1) = Some (File b1)"
    using st1 by (rule stat_mono)
  from c1 b1 have l1: "loads b1 = Some v1" by simp
  from c2 b2 have l2: "loads b2 = Some v2" by simp
  from st1' st2 l1 l2 show ?thesis by (simp add: fst_fs_get_value)
qed

lemma tree_shaped_run1: "tree_shaped run1"
  by (auto simp: tree_shaped_def run1_def node_at_def split: if_splits)

lemma run1_set: "fs_set_value Some run1_manager stepA_result ''42'' run1 = (Inr (), run1_written)"
proof -
  have "fst (fs_set_value Some run1_manager stepA_result ''42'' run1) = Inr ()"
    by (simp add: fs_defs run1_defs)
  then show ?thesis by (simp add: run1_written_def prod_eq_iff)
qed

lemma run1_set_other:
  "fs_set_value Some run1_manager stepA_other ''7'' run1_written = (Inr (), run1_both)"
proof -
  have "fst (fs_set_value Some run1_manager stepA_other ''7'' run1_written) = Inr ()"
    by (simp add: run1_written_eq) (simp add: fs_defs run1_defs stepA_other_def)
  then show ?thesis by (simp add: run1_both_def prod_eq_iff)
qed

lemma simple_run1:
  "simple_handle stepA_result \<and> simple_handle stepA_other \<and> stepA_other \<noteq> stepA_result"
  by (simp add: simple_handle_def simple_name_def stepA_result_def stepA_other_def sep_def)

lemma distinct_run1: "stepA_result \<noteq> stepA_other"
  by (simp add: stepA_result_def stepA_other_def)

lemma isdir_run1: "os_path_isdir run1 (root run1_manager)"
  by (simp add: fs_defs run1_defs)

subsection \<open>Writes to distinct handles\<close>

text \<open>
  C5, as amended. In memory, \<^verbatim>\<open>set_value(h, v)\<close> leaves \<^verbatim>\<open>has_value\<close> and \<^verbatim>\<open>get_value\<close> of
  every other handle as they were, and after writes to two distinct handles each
  \<^verbatim>\<open>get_value\<close> returns its own value. On a file system that is a tree, with the root a
  directory, \<^verbatim>\<open>set_value\<close> on a simple handle leaves \<^verbatim>\<open>has_value\<close> and \<^verbatim>\<open>get_value\<close> of
  every other simple handle as they were, whether it returns or raises. For any two
  handles: when \<^verbatim>\<open>set_value(h1, v1)\<close> and then \<^verbatim>\<open>set_value(h2, v2)\<close> both return, \<^verbatim>\<open>get_value\<close>
  returns \<open>v1\<close> for \<open>h1\<close> and \<open>v2\<close> for \<open>h2\<close> (the values being such that unpickling
  their pickle gives them back); the statement holds for either order of the two.
\<close>

theorem writes_independent:
  "(h' \<noteq> h \<longrightarrow>
      fst (mem_has_value h' (snd (mem_set_value h v vals))) = fst (mem_has_value h' vals) \<and>
      fst (mem_get_value h' (snd (mem_set_value h v vals))) = fst (mem_get_value h' vals)) \<and>
   (h1 \<noteq> h2 \<longrightarrow>
      fst (mem_get_value h1 (snd (mem_set_value h2 v2 (snd (mem_set_value h1 v1 vals))))) = Inr v1 \<and>
      fst (mem_get_value h2 (snd (mem_set_value h2 v2 (snd (mem_set_value h1 v1 vals))))) = Inr v2) \<and>
   (tree_shaped fs \<and> os_path_isdir fs (root m) \<and> simple_handle h \<and> simple_handle h' \<and> h' \<noteq> h \<longrightarrow>
      fst (fs_has_value m h' (snd (fs_set_value dumps m h v fs))) = fst (fs_has_value m h' fs) \<and>
      fst (fs_get_value loads m h' (snd (fs_set_value dumps m h v fs))) =
        fst (fs_get_value loads m h' fs)) \<and>
   (fs_set_value dumps m h1 v1 fs = (Inr (), fs1) \<and> fs_set_value dumps m h2 v2 fs1 = (Inr (), fs2) \<and>
    (\<forall>b. dumps v1 = Some b \<longrightarrow> loads b = Some v1) \<and> (\<forall>b. dumps v2 = Some b \<longrightarrow> loads b = Some v2) \<longrightarrow>
      fst (fs_get_value loads m h1 fs2) = Inr v1 \<and> fst (fs_get_value loads m h2 fs2) = Inr v2)"
proof (intro conjI impI)
  assume "h' \<noteq> h"
  then show "fst (mem_has_value h' (snd (mem_set_value h v vals))) = fst (mem_has_value h' vals)"
    and "fst (mem_get_value h' (snd (mem_set_value h v vals))) = fst (mem_get_value h' vals)"
    by (simp_all add: mem_has_value_def mem_get_value_def mem_set_value_def split: option.splits)
next
  assume "h1 \<noteq> h2"
  then show "fst (mem_get_value h1 (snd (mem_set_value h2 v2 (snd (mem_set_value h1 v1 vals))))) = Inr v1"
    and "fst (mem_get_value h2 (snd (mem_set_value h2 v2 (snd (mem_set_value h1 v1 vals))))) = Inr v2"
    by (simp_all add: mem_get_value_def mem_set_value_def split: option.splits)
next
  assume a: "tree_shaped fs \<and> os_path_isdir fs (root m) \<and> simple_handle h \<and> simple_handle h' \<and> h' \<noteq> h"
  then have "stat (snd (fs_set_value dumps m h v fs)) (create_path_from_handle m h') =
      stat fs (create_path_from_handle m h')"
    by (simp add: fs_set_value_frame)
  then show "fst (fs_has_value m h' (snd (fs_set_value dumps m h v fs))) = fst (fs_has_value m h' fs)"
    and "fst (fs_get_value loads m h' (snd (fs_set_value dumps m h v fs))) =
        fst (fs_get_value loads m h' fs)"
    by (simp_all only: fst_fs_has_value fst_fs_get_value)
next
  assume a: "fs_set_value dumps m h1 v1 fs = (Inr (), fs1) \<and> fs_set_value dumps m h2 v2 fs1 = (Inr (), fs2) \<and>
    (\<forall>b. dumps v1 = Some b \<longrightarrow> loads b = Some v1) \<and> (\<forall>b. dumps v2 = Some b \<longrightarrow> loads b = Some v2)"
  then have "fst (fs_get_value loads m h1 fs2) = Inr v1 \<and> fst (fs_get_value loads m h2 fs2) = Inr v2"
    by (intro two_writes_readable [of dumps m h1 v1 fs fs1 h2 v2 fs2 loads]) simp_all
  then show "fst (fs_get_value loads m h1 fs2) = Inr v1"
    and "fst (fs_get_value loads m h2 fs2) = Inr v2" by simp_all
qed

theorem writes_independent_witness:
  "tree_shaped run1 \<and> os_path_isdir run1 (root run1_manager) \<and>
   simple_handle stepA_result \<and> simple_handle stepA_other \<and> stepA_other \<noteq> stepA_result \<and>
   fs_set_value Some run1_manager stepA_result ''42'' run1 = (Inr (), run1_written) \<and>
   fs_set_value Some run1_manager stepA_other ''7'' run1_written = (Inr (), run1_both) \<and>
   fst (fs_has_value run1_manager stepA_other run1_written) =
     fst (fs_has_value run1_manager stepA_other run1) \<and>
   fst (fs_get_value Some run1_manager stepA_result run1_both) = Inr ''42'' \<and>
   fst (fs_get_value Some run1_manager stepA_other run1_both) = Inr ''7''"
  using writes_independent [where h = stepA_result and h' = stepA_other and ?h1.0 = stepA_result
      and ?h2.0 = stepA_other and ?v1.0 = "''42''" and ?v2.0 = "''7''" and v = "''42''"
      and fs = run1 and ?fs1.0 = run1_written and ?fs2.0 = run1_both and m = run1_manager
      and dumps = Some and loads = Some and vals = InMemoryIntermediatesManager_init]
    tree_shaped_run1 isdir_run1 simple_run1 run1_set run1_set_other
  by simp

text \<open>
  The claim as it is written fails on the file system: the handles \<^verbatim>\<open>("a/b", "c")\<close> and
  \<^verbatim>\<open>("a", "b/c")\<close> are distinct, and writing the first makes its value visible for the
  second, which had none before.
\<close>

theorem aliased_handles_counterexample:
  "fst (fs_has_value run1_manager \<lparr>step_key = ''a'', output_name = ''b/c''\<rparr> run1) = Inr False \<and>
   fst (fs_set_value Some run1_manager \<lparr>step_key = ''a/b'', output_name = ''c''\<rparr> ''1'' run1) = Inr () \<and>
   fst (fs_has_value run1_manager \<lparr>step_key = ''a'', output_name = ''b/c''\<rparr>
     (snd (fs_set_value Some run1_manager \<lparr>step_key = ''a/b'', output_name = ''c''\<rparr> ''1'' run1))) = Inr True \<and>
   fst (fs_get_value Some run1_manager \<lparr>step_key = ''a'', output_name = ''b/c''\<rparr>
     (snd (fs_set_value Some run1_manager \<lparr>step_key = ''a/b'', output_name = ''c''\<rparr> ''1'' run1))) = Inr ''1''"
  by (simp add: fs_defs run1_defs)

subsection \<open>Reading what was never written\<close>

text \<open>
  C3, as amended. In memory, for a handle that no \<^verbatim>\<open>set_value\<close> of the history was for,
  \<^verbatim>\<open>has_value\<close> returns false and \<^verbatim>\<open>get_value\<close> raises \<^verbatim>\<open>KeyError\<close> (the specification's
  \<^verbatim>\<open>KeyNotFound\<close>). On a file system that is a tree, with the root a directory and the
  path of a simple handle absent at the start, after any history of \<^verbatim>\<open>set_value\<close> calls
  for other simple handles \<^verbatim>\<open>has_value\<close> returns false and \<^verbatim>\<open>get_value\<close> raises the
  check failure that the specification calls \<^verbatim>\<open>PreconditionViolation\<close>. Neither returns
  a default value.
\<close>

theorem read_before_write:
  "(h \<notin> fst ` set ws \<longrightarrow>
      fst (mem_has_value h (mem_writes ws InMemoryIntermediatesManager_init)) = Inr False \<and>
      fst (mem_get_value h (mem_writes ws InMemoryIntermediatesManager_init)) = Inl KeyError) \<and>
   (tree_shaped fs \<and> os_path_isdir fs (root m) \<and>
    \<not> os_path_exists fs (create_path_from_handle m h) \<and>
    simple_handle h \<and> (\<forall>w \<in> set ws. simple_handle (fst w) \<and> fst w \<noteq> h) \<longrightarrow>
      fst (fs_has_value m h (fs_writes dumps m ws fs)) = Inr False \<and>
      fst (fs_get_value loads m h (fs_writes dumps m ws fs)) = Inl CheckError)"
proof (intro conjI impI)
  assume "h \<notin> fst ` set ws"
  then have "mem_writes ws InMemoryIntermediatesManager_init h = None"
    by (simp add: mem_writes_absent InMemoryIntermediatesManager_init_def)
  then show "fst (mem_has_value h (mem_writes ws InMemoryIntermediatesManager_init)) = Inr False"
    and "fst (mem_get_value h (mem_writes ws InMemoryIntermediatesManager_init)) = Inl KeyError"
    by (simp_all add: mem_has_value_def mem_get_value_def)
next
  assume a: "tree_shaped fs \<and> os_path_isdir fs (root m) \<and>
    \<not> os_path_exists fs (create_path_from_handle m h) \<and>
    simple_handle h \<and> (\<forall>w \<in> set ws. simple_handle (fst w) \<and> fst w \<noteq> h)"
  then have "stat (fs_writes dumps m ws fs) (create_path_from_handle m h) =
      stat fs (create_path_from_handle m h)"
    by (intro fs_writes_absent) simp_all
  with a have "stat (fs_writes dumps m ws fs) (create_path_from_handle m h) = None"
    by (simp add: os_path_exists_def)
  then show "fst (fs_has_value m h (fs_writes dumps m ws fs)) = Inr False"
    and "fst (fs_get_value loads m h (fs_writes dumps m ws fs)) = Inl CheckError"
    by (simp_all add: fst_fs_has_value fst_fs_get_value)
qed

theorem read_before_write_witness:
  "stepA_result \<notin> fst ` set [(stepA_other, ''7'')] \<and>
   tree_shaped run1 \<and> os_path_isdir run1 (root run1_manager) \<and>
   \<not> os_path_exists run1 (create_path_from_handle run1_manager stepA_result) \<and>
   simple_handle stepA_result \<and> simple_handle stepA_other \<and>
   fst (mem_get_value stepA_result
     (mem_writes [(stepA_other, ''7'')] InMemoryIntermediatesManager_init)) = Inl KeyError \<and>
   fst (fs_has_value run1_manager stepA_result
     (fs_writes Some run1_manager [(stepA_other, ''7'')] run1)) = Inr False \<and>
   fst (fs_get_value Some run1_manager stepA_result
     (fs_writes Some run1_manager [(stepA_other, ''7'')] run1)) = Inl CheckError"
proof -
  have e: "\<not> os_path_exists run1 (create_path_from_handle run1_manager stepA_result)"
    by (simp add: fs_defs run1_defs)
  show ?thesis
    using read_before_write [where h = stepA_result and ws = "[(stepA_other, ''7'')]" and fs = run1
        and m = run1_manager and dumps = Some and loads = Some]
      tree_shaped_run1 isdir_run1 simple_run1 distinct_run1 e
    by simp
qed

text \<open>
  The claim as it is written fails twice: in memory \<^verbatim>\<open>get_value\<close> on the empty dict raises
  \<^verbatim>\<open>KeyError\<close>, not a check failure; and on the file system, after
  \<^verbatim>\<open>set_value(("a/b", "c"), "1")\<close>, the handle \<^verbatim>\<open>("a", "b")\<close> was never written, yet its
  \<^verbatim>\<open>has_value\<close> raises instead of returning false, its path being a directory.
\<close>

theorem read_before_write_counterexample:
  "fst (mem_get_value stepA_result (InMemoryIntermediatesManager_init :: string mem_values)) =
     Inl KeyError \<and>
   fst (fs_has_value run1_manager \<lparr>step_key = ''a'', output_name = ''b''\<rparr>
     (fs_writes Some run1_manager [(\<lparr>step_key = ''a/b'', output_name = ''c''\<rparr>, ''1'')] run1)) =
     Inl CheckError"
  by (simp add: fs_defs run1_defs mem_get_value_def InMemoryIntermediatesManager_init_def)

subsection \<open>The constructor of handles\<close>

text \<open>
  \<^verbatim>\<open>StepOutputHandle.__new__\<close> has no test of its own: it returns a handle exactly when
  \<^verbatim>\<open>check.str_param\<close> accepts both arguments, and the fields are what \<^verbatim>\<open>check.str_param\<close>
  returned.
\<close>

lemma StepOutputHandle_new_Inr:
  "StepOutputHandle_new str_param sk out = Inr h \<longleftrightarrow>
     (\<exists>k n. str_param sk = Inr k \<and> str_param out = Inr n \<and>
            h = \<lparr>step_key = k, output_name = n\<rparr>)"
  by (auto simp: StepOutputHandle_new_def split: sum.splits)

subsection \<open>has_value on the file system\<close>

lemma isfile_create_path:
  assumes "root m \<noteq> []" and "relative (step_key h)" and "relative (output_name h)"
  shows "os_path_isfile fs (create_path_from_handle m h) =
     os_path_isfile fs (root m @ [sep] @ step_key h @ [sep] @ output_name h)"
  by (simp add: os_path_isfile_def stat_create_path [OF assms])

lemma exists_create_path:
  assumes "root m \<noteq> []" and "relative (step_key h)" and "relative (output_name h)"
  shows "os_path_exists fs (create_path_from_handle m h) =
     os_path_exists fs (root m @ [sep] @ step_key h @ [sep] @ output_name h)"
  by (simp add: os_path_exists_def stat_create_path [OF assms])

lemma fs_has_value_derived:
  "(fst (fs_has_value m h fs) = Inr True \<longleftrightarrow> os_path_isfile fs (create_path_from_handle m h)) \<and>
   (os_path_exists fs (create_path_from_handle m h) \<and>
    \<not> os_path_isfile fs (create_path_from_handle m h) \<longrightarrow>
      fst (fs_has_value m h fs) = Inl CheckError) \<and>
   (\<not> os_path_exists fs (create_path_from_handle m h) \<longrightarrow> fst (fs_has_value m h fs) = Inr False)"
  by (auto simp: fs_has_value_def Let_def invariant_def os_path_exists_def os_path_isfile_def
      split: option.splits node.splits)

text \<open>
  C9, as amended. When the root is not empty and neither the step key nor the output
  name begins with a separator, \<^verbatim>\<open>has_value\<close> of the file-system manager returns true
  exactly when \<^verbatim>\<open>root/step_key/output_name\<close> is a regular file; when that path exists and
  is not a regular file it raises the check failure that the specification calls
  \<^verbatim>\<open>CorruptStore\<close>; when that path does not exist it returns false.
\<close>

theorem fs_has_value_cases:
  "root m \<noteq> [] \<and> relative (step_key h) \<and> relative (output_name h) \<longrightarrow>
   (fst (fs_has_value m h fs) = Inr True \<longleftrightarrow>
      os_path_isfile fs (root m @ [sep] @ step_key h @ [sep] @ output_name h)) \<and>
   (os_path_exists fs (root m @ [sep] @ step_key h @ [sep] @ output_name h) \<and>
    \<not> os_path_isfile fs (root m @ [sep] @ step_key h @ [sep] @ output_name h) \<longrightarrow>
      fst (fs_has_value m h fs) = Inl CheckError) \<and>
   (\<not> os_path_exists fs (root m @ [sep] @ step_key h @ [sep] @ output_name h) \<longrightarrow>
      fst (fs_has_value m h fs) = Inr False)"
proof
  assume a: "root m \<noteq> [] \<and> relative (step_key h) \<and> relative (output_name h)"
  then have r: "root m \<noteq> []" and k: "relative (step_key h)" and n: "relative (output_name h)"
    by simp_all
  show "(fst (fs_has_value m h fs) = Inr True \<longleftrightarrow>
      os_path_isfile fs (root m @ [sep] @ step_key h @ [sep] @ output_name h)) \<and>
   (os_path_exists fs (root m @ [sep] @ step_key h @ [sep] @ output_name h) \<and>
    \<not> os_path_isfile fs (root m @ [sep] @ step_key h @ [sep] @ output_name h) \<longrightarrow>
      fst (fs_has_value m h fs) = Inl CheckError) \<and>
   (\<not> os_path_exists fs (root m @ [sep] @ step_key h @ [sep] @ output_name h) \<longrightarrow>
      fst (fs_has_value m h fs) = Inr False)"
    using fs_has_value_derived [of m h fs]
    unfolding isfile_create_path [OF r k n] exists_create_path [OF r k n] .
qed

theorem fs_has_value_cases_witness:
  "root run1_manager \<noteq> [] \<and> relative ''stepA'' \<and> relative ''result'' \<and>
   os_path_isfile run1_written ''/tmp/run1/stepA/result'' \<and>
   fst (fs_has_value run1_manager stepA_result run1_written) = Inr True \<and>
   os_path_exists run1_corrupt ''/tmp/run1/stepA/result'' \<and>
   \<not> os_path_isfile run1_corrupt ''/tmp/run1/stepA/result'' \<and>
   fst (fs_has_value run1_manager stepA_result run1_corrupt) = Inl CheckError \<and>
   \<not> os_path_exists run1 ''/tmp/run1/stepA/result'' \<and>
   fst (fs_has_value run1_manager stepA_result run1) = Inr False"
proof -
  have r: "root run1_manager \<noteq> [] \<and> relative ''stepA'' \<and> relative ''result''"
    by (simp add: run1_manager_def relative_def sep_def)
  have w: "os_path_isfile run1_written ''/tmp/run1/stepA/result''"
    by (simp add: run1_written_eq) (simp add: fs_defs)
  have e: "os_path_exists run1_corrupt ''/tmp/run1/stepA/result''"
    by (simp add: fs_defs run1_defs)
  have f: "\<not> os_path_isfile run1_corrupt ''/tmp/run1/stepA/result''"
    by (simp add: fs_defs run1_defs)
  have n: "\<not> os_path_exists run1 ''/tmp/run1/stepA/result''"
    by (simp add: fs_defs run1_defs)
  from r w e f n show ?thesis
    using fs_has_value_cases [of run1_manager stepA_result run1_written]
      fs_has_value_cases [of run1_manager stepA_result run1_corrupt]
      fs_has_value_cases [of run1_manager stepA_result run1]
    by (simp add: stepA_result_def run1_manager_def sep_def)
qed

text \<open>
  The claim as it is written fails for a step key that begins with a separator: after
  \<^verbatim>\<open>set_value(("/tmp", "x"), "42")\<close> under the root \<^verbatim>\<open>/tmp/run1\<close>, \<^verbatim>\<open>has_value\<close> returns true,
  and \<^verbatim>\<open>root/step_key/output_name\<close> is no regular file: it does not exist.
\<close>

theorem fs_has_value_outside_root_counterexample:
  "fst (fs_has_value run1_manager \<lparr>step_key = ''/tmp'', output_name = ''x''\<rparr>
     (snd (fs_set_value Some run1_manager \<lparr>step_key = ''/tmp'', output_name = ''x''\<rparr> ''42'' run1))) =
     Inr True \<and>
   \<not> os_path_isfile
     (snd (fs_set_value Some run1_manager \<lparr>step_key = ''/tmp'', output_name = ''x''\<rparr> ''42'' run1))
     ''/tmp/run1//tmp/x'' \<and>
   \<not> os_path_exists
     (snd (fs_set_value Some run1_manager \<lparr>step_key = ''/tmp'', output_name = ''x''\<rparr> ''42'' run1))
     ''/tmp/run1//tmp/x''"
  by (simp add: fs_defs run1_defs)

end
